theory Spec2Isabelle
  imports Complex_Main
begin

section \<open>Python values, dictionaries and the clock\<close>

text \<open>
  The three modules (\<^verbatim>\<open>integration_engine.py\<close>, \<^verbatim>\<open>self_healing.py\<close>,
  \<^verbatim>\<open>quantum_ai_core.py\<close>) pass opaque dictionaries around (payloads, configs, task data).
  Their values are Python objects; \<open>pyval\<close> covers the ones the code inspects.
  Floats are idealised as reals. Calls to the logger write to no state of the program and
  are left out.
\<close>

datatype pyval =
    PNone
  | PBool bool
  | PInt int
  | PFloat real
  | PStr string
  | PList "pyval list"
  | PDict "(string \<times> pyval) list"

type_synonym pydict = "(string \<times> pyval) list"

text \<open>
  A Python \<^verbatim>\<open>dict\<close> keeps its keys in insertion order, and the order is observable
  (\<^verbatim>\<open>broadcast\<close> and both health sweeps iterate it), so a dictionary is an association
  list. Assigning to a key that is present replaces the value where it stands; assigning to
  a new key appends it.
\<close>

primrec dict_get :: "(string \<times> 'v) list \<Rightarrow> string \<Rightarrow> 'v option" where
  "dict_get [] k = None"
| "dict_get (p # ps) k = (if fst p = k then Some (snd p) else dict_get ps k)"

primrec dict_set :: "(string \<times> 'v) list \<Rightarrow> string \<Rightarrow> 'v \<Rightarrow> (string \<times> 'v) list" where
  "dict_set [] k v = [(k, v)]"
| "dict_set (p # ps) k v = (if fst p = k then (k, v) # ps else p # dict_set ps k v)"

definition dict_keys :: "(string \<times> 'v) list \<Rightarrow> string list" where
  "dict_keys d = map fst d"


text \<open>
  Every \<^verbatim>\<open>time.time()\<close> is a reading of the environment's clock. An operation receives
  the readings it will make as a function: \<open>clk 0\<close> is its first reading, \<open>clk 1\<close> its
  second, and so on. \<open>tick\<close> is the clock after one reading.
\<close>

type_synonym clock = "nat \<Rightarrow> real"

definition tick :: "clock \<Rightarrow> clock" where
  "tick clk = (\<lambda>i. clk (Suc i))"

text \<open>
  \<^verbatim>\<open>round(x, 2)\<close>: to the nearest hundredth, a tie going to the even neighbour.
\<close>

definition round2 :: "real \<Rightarrow> real" where
  "round2 x =
     (let y = x * 100; f = \<lfloor>y\<rfloor>; d = y - of_int f
      in of_int (if d < 1 / 2 then f else if 1 / 2 < d then f + 1
                 else if even f then f else f + 1) / 100)"

section \<open>The integration engine\<close>

text \<open>
  A service record is the six-key dictionary built by \<^verbatim>\<open>register_service\<close>; the key
  \<^verbatim>\<open>'type'\<close> is the field \<open>service_type\<close>.
\<close>

record service =
  service_type :: string
  endpoint :: string
  config :: pydict
  status :: string
  registered_at :: real
  message_count :: int

text \<open>
  A message is the dictionary built by \<^verbatim>\<open>send_message\<close>: the key \<^verbatim>\<open>'status'\<close> is the
  field \<open>delivery_status\<close>, and the key \<^verbatim>\<open>'error'\<close>, present only on a failed delivery, is
  the optional field \<open>error\<close>.
\<close>

record message =
  source :: string
  target :: string
  payload :: pydict
  timestamp :: real
  delivery_status :: string
  error :: "string option"

type_synonym registry = "(string \<times> service) list"

record engine =
  registered_services :: registry
  message_queue :: "message list"
  processed_messages :: "message list"
  integration_log :: "pydict list"
  engine_start_time :: real

text \<open>\<^verbatim>\<open>IntegrationEngine.__init__\<close>\<close>

definition engine_init :: "clock \<Rightarrow> engine" where
  "engine_init clk =
     \<lparr>registered_services = [], message_queue = [], processed_messages = [],
      integration_log = [], engine_start_time = clk 0\<rparr>"

text \<open>
  \<^verbatim>\<open>config or {}\<close>: a missing (\<^verbatim>\<open>None\<close>) or empty config gives a fresh empty dictionary.
\<close>

definition config_or_empty :: "pydict option \<Rightarrow> pydict" where
  "config_or_empty cfg = (case cfg of None \<Rightarrow> [] | Some c \<Rightarrow> if c = [] then [] else c)"

text \<open>\<^verbatim>\<open>IntegrationEngine.register_service\<close>\<close>

definition register_service ::
  "engine \<Rightarrow> string \<Rightarrow> string \<Rightarrow> string \<Rightarrow> pydict option \<Rightarrow> clock \<Rightarrow> engine" where
  "register_service e name stype ep cfg clk =
     e\<lparr>registered_services :=
         dict_set (registered_services e) name
           \<lparr>service_type = stype, endpoint = ep, config = config_or_empty cfg,
            status = ''active'', registered_at = clk 0, message_count = 0\<rparr>\<rparr>"

text \<open>
  \<^verbatim>\<open>IntegrationEngine.send_message\<close>. The message starts \<^verbatim>\<open>'pending'\<close> and is resolved
  by the membership test on the target; the same message goes to both logs and to the
  caller. The in-place \<^verbatim>\<open>+= 1\<close> on the target's record is a store at the target's key.
\<close>

definition send_message ::
  "engine \<Rightarrow> string \<Rightarrow> string \<Rightarrow> pydict \<Rightarrow> clock \<Rightarrow> message \<times> engine" where
  "send_message e src tgt pl clk =
     (let message = \<lparr>source = src, target = tgt, payload = pl, timestamp = clk 0,
                     delivery_status = ''pending'', error = None\<rparr>;
          (message', services') =
            (case dict_get (registered_services e) tgt of
               None \<Rightarrow>
                 (message\<lparr>delivery_status := ''error'',
                          error := Some (''Service '' @ tgt @ '' not registered'')\<rparr>,
                  registered_services e)
             | Some s \<Rightarrow>
                 (message\<lparr>delivery_status := ''delivered''\<rparr>,
                  dict_set (registered_services e) tgt
                    (s\<lparr>message_count := message_count s + 1\<rparr>)))
      in (message',
          e\<lparr>registered_services := services',
            message_queue := message_queue e @ [message'],
            processed_messages := processed_messages e @ [message']\<rparr>))"

text \<open>
  \<^verbatim>\<open>IntegrationEngine.broadcast\<close>. The loop runs over the registry's keys;
  \<^verbatim>\<open>send_message\<close> never adds or removes a key, so the keys seen by the loop are the keys
  at entry. Each send makes one clock reading.
\<close>

fun broadcast_loop ::
  "string list \<Rightarrow> engine \<Rightarrow> string \<Rightarrow> pydict \<Rightarrow> clock \<Rightarrow> message list \<Rightarrow> message list \<times> engine" where
  "broadcast_loop [] e src pl clk results = (results, e)"
| "broadcast_loop (name # names) e src pl clk results =
     (if name \<noteq> src then
        (let (result, e') = send_message e src name pl clk
         in broadcast_loop names e' src pl (tick clk) (results @ [result]))
      else broadcast_loop names e src pl clk results)"

definition broadcast :: "engine \<Rightarrow> string \<Rightarrow> pydict \<Rightarrow> clock \<Rightarrow> message list \<times> engine" where
  "broadcast e src pl clk =
     broadcast_loop (dict_keys (registered_services e)) e src pl clk []"

text \<open>\<^verbatim>\<open>IntegrationEngine.get_service_status\<close>\<close>

definition get_service_status :: "engine \<Rightarrow> string \<Rightarrow> service option" where
  "get_service_status e name = dict_get (registered_services e) name"

record service_summary =
  summary_type :: string
  summary_status :: string
  messages :: int

record integration_report =
  version :: string
  uptime_seconds :: real
  services_registered :: nat
  messages_processed :: nat
  pending_messages :: nat
  services :: "(string \<times> service_summary) list"

text \<open>\<^verbatim>\<open>IntegrationEngine.get_integration_report\<close>\<close>

definition get_integration_report :: "engine \<Rightarrow> clock \<Rightarrow> integration_report" where
  "get_integration_report e clk =
     (let uptime = clk 0 - engine_start_time e
      in \<lparr>version = ''2.0.0'',
          uptime_seconds = round2 uptime,
          services_registered = length (registered_services e),
          messages_processed = length (processed_messages e),
          pending_messages =
            length (filter (\<lambda>m. delivery_status m = ''pending'') (message_queue e)),
          services =
            map (\<lambda>(name, s). (name, \<lparr>summary_type = service_type s,
                                        summary_status = status s,
                                        messages = message_count s\<rparr>))
              (registered_services e)\<rparr>)"

section \<open>The self-healing monitor\<close>

text \<open>
  A health issue is the dictionary with keys \<^verbatim>\<open>'service'\<close>, \<^verbatim>\<open>'issue'\<close> and
  \<^verbatim>\<open>'severity'\<close>; a repair the one with keys \<^verbatim>\<open>'service'\<close>, \<^verbatim>\<open>'action'\<close> and
  \<^verbatim>\<open>'timestamp'\<close>.
\<close>

record issue =
  issue_service :: string
  issue_kind :: string
  severity :: string

record repair =
  repair_service :: string
  action :: string
  repair_timestamp :: real

record self_healing =
  check_interval :: real
  health_status :: string
  fault_log :: "issue list"
  repairs :: "repair list"
  healing_start_time :: real

record health_report =
  report_status :: string
  report_issues :: "issue list"
  services_checked :: nat
  report_timestamp :: real

text \<open>\<^verbatim>\<open>SelfHealing.__init__\<close>\<close>

definition healing_init :: "real \<Rightarrow> clock \<Rightarrow> self_healing" where
  "healing_init interval clk =
     \<lparr>check_interval = interval, health_status = ''healthy'', fault_log = [],
      repairs = [], healing_start_time = clk 0\<rparr>"

text \<open>
  Both sweeps receive a reference to a dictionary of service records, whose records always
  carry a \<^verbatim>\<open>'status'\<close> key (so \<^verbatim>\<open>service.get('status')\<close> is the field). Each sweep is
  modelled with the registry as it stands when the call returns as the last component of
  its result. \<^verbatim>\<open>check_health\<close> only reads the records, so the dictionary of records is
  all it depends on. \<^verbatim>\<open>auto_repair\<close> writes into the record objects: it is given twice,
  first on a registry whose names are bound to separate record objects (the engine's
  registry), then on any registry of record objects.

  The loop of \<^verbatim>\<open>check_health\<close>, with the issue list as accumulator:
\<close>

fun check_loop :: "registry \<Rightarrow> issue list \<Rightarrow> issue list" where
  "check_loop [] iss = iss"
| "check_loop ((name, s) # rest) iss =
     (if status s \<noteq> ''active'' then
        check_loop rest
          (iss @ [\<lparr>issue_service = name, issue_kind = ''inactive'', severity = ''warning''\<rparr>])
      else check_loop rest iss)"

text \<open>\<^verbatim>\<open>SelfHealing.check_health\<close>\<close>

definition check_health ::
  "self_healing \<Rightarrow> registry \<Rightarrow> clock \<Rightarrow> health_report \<times> self_healing \<times> registry" where
  "check_health h svcs clk =
     (let iss = check_loop svcs [];
          h' = (if iss \<noteq> [] then
                  h\<lparr>health_status := ''degraded'', fault_log := fault_log h @ iss\<rparr>
                else h\<lparr>health_status := ''healthy''\<rparr>)
      in (\<lparr>report_status = health_status h', report_issues = iss,
           services_checked = length svcs, report_timestamp = clk 0\<rparr>,
          h', svcs))"

text \<open>
  The loop of \<^verbatim>\<open>auto_repair\<close>: it writes \<^verbatim>\<open>'active'\<close> into each record that is not
  active, reading the clock once per repair. It returns the records after the sweep and the
  repair list.
\<close>

fun repair_loop :: "registry \<Rightarrow> clock \<Rightarrow> repair list \<Rightarrow> registry \<times> repair list" where
  "repair_loop [] clk reps = ([], reps)"
| "repair_loop ((name, s) # rest) clk reps =
     (if status s \<noteq> ''active'' then
        (let s' = s\<lparr>status := ''active''\<rparr>;
             rep = \<lparr>repair_service = name, action = ''reactivated'',
                    repair_timestamp = clk 0\<rparr>;
             (rest', reps') = repair_loop rest (tick clk) (reps @ [rep])
         in ((name, s') # rest', reps'))
      else
        (let (rest', reps') = repair_loop rest clk reps
         in ((name, s) # rest', reps')))"

text \<open>\<^verbatim>\<open>SelfHealing.auto_repair\<close>\<close>

definition auto_repair ::
  "self_healing \<Rightarrow> registry \<Rightarrow> clock \<Rightarrow> repair list \<times> self_healing \<times> registry" where
  "auto_repair h svcs clk =
     (let (svcs', reps) = repair_loop svcs clk [];
          h1 = h\<lparr>repairs := repairs h @ reps\<rparr>;
          h2 = (if filter (\<lambda>s. status s \<noteq> ''active'') (map snd svcs') = [] then
                  h1\<lparr>health_status := ''healthy''\<rparr>
                else h1)
      in (reps, h2, svcs'))"

text \<open>
  \<^verbatim>\<open>auto_repair\<close> on any dictionary of record objects. The write
  \<^verbatim>\<open>service['status'] = 'active'\<close> goes to the record object itself, so when two names are
  bound to one object the write made for the first name is seen at the second. Here a
  registry binds each name to the address of a record object, and the store gives the
  record held at each address; \<open>deref\<close> is the dictionary of records that a sweep reads.
  On a registry that binds every name to an object of its own (as the engine's does, each
  \<^verbatim>\<open>register_service\<close> building a new record) this sweep and \<open>auto_repair\<close> above
  agree.
\<close>

type_synonym addr = nat

type_synonym record_store = "addr \<Rightarrow> service"

type_synonym ref_registry = "(string \<times> addr) list"

definition deref :: "record_store \<Rightarrow> ref_registry \<Rightarrow> registry" where
  "deref store reg = map (\<lambda>p. (fst p, store (snd p))) reg"

fun repair_loop_refs ::
  "ref_registry \<Rightarrow> record_store \<Rightarrow> clock \<Rightarrow> repair list \<Rightarrow> record_store \<times> repair list" where
  "repair_loop_refs [] store clk reps = (store, reps)"
| "repair_loop_refs ((name, a) # rest) store clk reps =
     (if status (store a) \<noteq> ''active'' then
        repair_loop_refs rest
          (store(a := (store a)\<lparr>status := ''active''\<rparr>))
          (tick clk)
          (reps @ [\<lparr>repair_service = name, action = ''reactivated'',
                    repair_timestamp = clk 0\<rparr>])
      else repair_loop_refs rest store clk reps)"

definition auto_repair_refs ::
  "self_healing \<Rightarrow> ref_registry \<Rightarrow> record_store \<Rightarrow> clock
     \<Rightarrow> repair list \<times> self_healing \<times> record_store" where
  "auto_repair_refs h reg store clk =
     (let (store', reps) = repair_loop_refs reg store clk [];
          h1 = h\<lparr>repairs := repairs h @ reps\<rparr>;
          h2 = (if filter (\<lambda>s. status s \<noteq> ''active'') (map snd (deref store' reg)) = [] then
                  h1\<lparr>health_status := ''healthy''\<rparr>
                else h1)
      in (reps, h2, store'))"

text \<open>The names whose record is not active, in registry order.\<close>

definition non_active_names :: "registry \<Rightarrow> string list" where
  "non_active_names svcs = map fst (filter (\<lambda>p. status (snd p) \<noteq> ''active'') svcs)"

record healing_report =
  healing_version :: string
  healing_status :: string
  healing_uptime_seconds :: real
  faults_detected :: nat
  repairs_executed :: nat

text \<open>\<^verbatim>\<open>SelfHealing.get_report\<close>\<close>

definition get_report :: "self_healing \<Rightarrow> clock \<Rightarrow> healing_report" where
  "get_report h clk =
     (let uptime = clk 0 - healing_start_time h
      in \<lparr>healing_version = ''2.0.0'', healing_status = health_status h,
          healing_uptime_seconds = round2 uptime,
          faults_detected = length (fault_log h),
          repairs_executed = length (repairs h)\<rparr>)"

section \<open>The quantum AI core\<close>
























section \<open>Reachable engine states and sample inputs\<close>

text \<open>
  The states an engine can be in: it is constructed, and then services are registered,
  messages are sent and broadcast, and a monitor sweeps its registry with
  \<^verbatim>\<open>auto_repair\<close>. (\<^verbatim>\<open>get_service_status\<close>, \<^verbatim>\<open>get_integration_report\<close> and
  \<^verbatim>\<open>check_health\<close> write nothing into the engine.)
\<close>

inductive reachable :: "engine \<Rightarrow> bool" where
  reach_init: "reachable (engine_init clk)"
| reach_register: "reachable e \<Longrightarrow> reachable (register_service e name stype ep cfg clk)"
| reach_send: "reachable e \<Longrightarrow> reachable (snd (send_message e src tgt pl clk))"
| reach_broadcast: "reachable e \<Longrightarrow> reachable (snd (broadcast e src pl clk))"
| reach_repair:
    "reachable e \<Longrightarrow>
     reachable (e\<lparr>registered_services :=
                   snd (snd (auto_repair h (registered_services e) clk))\<rparr>)"

definition logs_ok :: "engine \<Rightarrow> bool" where
  "logs_ok e \<longleftrightarrow>
     message_queue e = processed_messages e
   \<and> (\<forall>m \<in> set (message_queue e).
        delivery_status m = ''delivered'' \<or> delivery_status m = ''error'')"

text \<open>A clock whose \<open>i\<close>-th reading is \<open>i\<close>, and an engine with two services and one delivery.\<close>

definition demo_clock :: clock where
  "demo_clock i = real i"

definition demo_engine :: engine where
  "demo_engine =
     snd (send_message
            (register_service
               (register_service (engine_init demo_clock) ''alpha'' ''database'' '''' None
                  demo_clock)
               ''beta'' ''api'' ''local'' None demo_clock)
            ''beta'' ''alpha'' [] demo_clock)"

text \<open>The same engine with a third service.\<close>

definition demo_engine3 :: engine where
  "demo_engine3 = register_service demo_engine ''gamma'' ''queue'' '''' None demo_clock"

text \<open>
  A registry in which two of three services have been switched off, a fresh monitor, and
  the monitor after it has checked that registry.
\<close>

definition demo_registry :: registry where
  "demo_registry =
     [(''alpha'', \<lparr>service_type = ''database'', endpoint = '''', config = [],
                   status = ''active'', registered_at = 0, message_count = 1\<rparr>),
      (''beta'', \<lparr>service_type = ''api'', endpoint = ''local'', config = [],
                  status = ''inactive'', registered_at = 0, message_count = 4\<rparr>),
      (''gamma'', \<lparr>service_type = ''queue'', endpoint = '''', config = [],
                   status = ''maintenance'', registered_at = 0, message_count = 0\<rparr>)]"

definition demo_monitor :: self_healing where
  "demo_monitor = healing_init 5 demo_clock"

definition demo_degraded_monitor :: self_healing where
  "demo_degraded_monitor = fst (snd (check_health demo_monitor demo_registry demo_clock))"



text \<open>
  The registry \<open>demo_registry\<close> as three record objects at three addresses; and a registry
  whose two names are bound to one record object, which is switched off.
\<close>

definition demo_store :: record_store where
  "demo_store a =
     (if a = 0 then
        \<lparr>service_type = ''database'', endpoint = '''', config = [],
         status = ''active'', registered_at = 0, message_count = 1\<rparr>
      else if a = 1 then
        \<lparr>service_type = ''api'', endpoint = ''local'', config = [],
         status = ''inactive'', registered_at = 0, message_count = 4\<rparr>
      else
        \<lparr>service_type = ''queue'', endpoint = '''', config = [],
         status = ''maintenance'', registered_at = 0, message_count = 0\<rparr>)"

definition demo_ref_registry :: ref_registry where
  "demo_ref_registry = [(''alpha'', 0), (''beta'', 1), (''gamma'', 2)]"

definition shared_store :: record_store where
  "shared_store a =
     \<lparr>service_type = ''api'', endpoint = '''', config = [],
      status = ''inactive'', registered_at = 0, message_count = 0\<rparr>"

definition shared_registry :: ref_registry where
  "shared_registry = [(''a'', 0), (''b'', 0)]"





section \<open>Dictionaries\<close>

lemma dict_get_None_iff: "dict_get d k = None \<longleftrightarrow> k \<notin> set (dict_keys d)"
  by (induction d) (auto simp: dict_keys_def)

lemma dict_get_dict_set:
  "dict_get (dict_set d k v) k' = (if k' = k then Some v else dict_get d k')"
  by (induction d) auto

lemma dict_keys_dict_set:
  "dict_keys (dict_set d k v) =
     (if k \<in> set (dict_keys d) then dict_keys d else dict_keys d @ [k])"
  by (induction d) (auto simp: dict_keys_def)

lemma length_dict_keys: "length (dict_keys d) = length d"
  by (simp add: dict_keys_def)

lemma demo_engine_eval:
  "demo_engine =
     \<lparr>registered_services =
        [(''alpha'', \<lparr>service_type = ''database'', endpoint = '''', config = [],
                      status = ''active'', registered_at = 0, message_count = 1\<rparr>),
         (''beta'', \<lparr>service_type = ''api'', endpoint = ''local'', config = [],
                     status = ''active'', registered_at = 0, message_count = 0\<rparr>)],
      message_queue =
        [\<lparr>source = ''beta'', target = ''alpha'', payload = [], timestamp = 0,
          delivery_status = ''delivered'', error = None\<rparr>],
      processed_messages =
        [\<lparr>source = ''beta'', target = ''alpha'', payload = [], timestamp = 0,
          delivery_status = ''delivered'', error = None\<rparr>],
      integration_log = [], engine_start_time = 0\<rparr>"
  by (simp add: demo_engine_def send_message_def register_service_def engine_init_def
        config_or_empty_def demo_clock_def)

lemma reachable_demo_engine: "reachable demo_engine"
  unfolding demo_engine_def
  by (intro reach_send reach_register reach_init)

section \<open>Sending one message\<close>

lemma send_message_registered:
  assumes "dict_get (registered_services e) tgt = Some s"
  shows "send_message e src tgt pl clk =
    (\<lparr>source = src, target = tgt, payload = pl, timestamp = clk 0,
       delivery_status = ''delivered'', error = None\<rparr>,
     e\<lparr>registered_services :=
          dict_set (registered_services e) tgt (s\<lparr>message_count := message_count s + 1\<rparr>),
        message_queue := message_queue e @
          [\<lparr>source = src, target = tgt, payload = pl, timestamp = clk 0,
            delivery_status = ''delivered'', error = None\<rparr>],
        processed_messages := processed_messages e @
          [\<lparr>source = src, target = tgt, payload = pl, timestamp = clk 0,
            delivery_status = ''delivered'', error = None\<rparr>]\<rparr>)"
  using assms by (simp add: send_message_def)

lemma send_message_unregistered:
  assumes "dict_get (registered_services e) tgt = None"
  shows "send_message e src tgt pl clk =
    (\<lparr>source = src, target = tgt, payload = pl, timestamp = clk 0,
       delivery_status = ''error'',
       error = Some (''Service '' @ tgt @ '' not registered'')\<rparr>,
     e\<lparr>message_queue := message_queue e @
          [\<lparr>source = src, target = tgt, payload = pl, timestamp = clk 0,
            delivery_status = ''error'',
            error = Some (''Service '' @ tgt @ '' not registered'')\<rparr>],
        processed_messages := processed_messages e @
          [\<lparr>source = src, target = tgt, payload = pl, timestamp = clk 0,
            delivery_status = ''error'',
            error = Some (''Service '' @ tgt @ '' not registered'')\<rparr>]\<rparr>)"
  using assms by (simp add: send_message_def)

lemma send_message_logs:
  "message_queue (snd (send_message e src tgt pl clk))
     = message_queue e @ [fst (send_message e src tgt pl clk)]
   \<and> processed_messages (snd (send_message e src tgt pl clk))
     = processed_messages e @ [fst (send_message e src tgt pl clk)]"
  by (cases "dict_get (registered_services e) tgt")
     (simp_all add: send_message_registered send_message_unregistered)

lemma send_message_resolved:
  "delivery_status (fst (send_message e src tgt pl clk)) = ''delivered''
   \<or> delivery_status (fst (send_message e src tgt pl clk)) = ''error''"
  by (cases "dict_get (registered_services e) tgt")
     (simp_all add: send_message_registered send_message_unregistered)

text \<open>
  C1. For every engine, source, target and payload: when the target is a key of the
  registry, \<open>send_message\<close> returns a message whose status is \<open>delivered\<close>, the target's
  record afterwards is its record before with \<open>message_count\<close> one higher, every other
  name \<open>n\<close> maps to the record it mapped to before, and the keys are the same; when the
  target is not a key, the message has status \<open>error\<close>, its error text is
  \<open>Service <target> not registered\<close>, and the registry is unchanged.
\<close>

theorem send_message_delivery:
  "(tgt \<in> set (dict_keys (registered_services e)) \<longrightarrow>
      delivery_status (fst (send_message e src tgt pl clk)) = ''delivered''
    \<and> (\<exists>s. dict_get (registered_services e) tgt = Some s
          \<and> dict_get (registered_services (snd (send_message e src tgt pl clk))) tgt
              = Some (s\<lparr>message_count := message_count s + 1\<rparr>))
    \<and> (n \<noteq> tgt \<longrightarrow>
          dict_get (registered_services (snd (send_message e src tgt pl clk))) n
            = dict_get (registered_services e) n)
    \<and> dict_keys (registered_services (snd (send_message e src tgt pl clk)))
          = dict_keys (registered_services e))
 \<and> (tgt \<notin> set (dict_keys (registered_services e)) \<longrightarrow>
      delivery_status (fst (send_message e src tgt pl clk)) = ''error''
    \<and> error (fst (send_message e src tgt pl clk))
          = Some (''Service '' @ tgt @ '' not registered'')
    \<and> registered_services (snd (send_message e src tgt pl clk)) = registered_services e)"
proof (cases "dict_get (registered_services e) tgt")
  case None
  then have "tgt \<notin> set (dict_keys (registered_services e))"
    by (simp add: dict_get_None_iff)
  with None show ?thesis
    by (simp add: send_message_unregistered)
next
  case (Some s)
  then have "tgt \<in> set (dict_keys (registered_services e))"
    using dict_get_None_iff[of "registered_services e" tgt] by simp
  with Some show ?thesis
    by (simp add: send_message_registered dict_get_dict_set dict_keys_dict_set)
qed

theorem send_message_delivery_witness:
  "''alpha'' \<in> set (dict_keys (registered_services demo_engine))
 \<and> ''gamma'' \<notin> set (dict_keys (registered_services demo_engine))
 \<and> delivery_status (fst (send_message demo_engine ''beta'' ''alpha'' [] demo_clock))
     = ''delivered''
 \<and> map_option message_count
     (dict_get (registered_services (snd (send_message demo_engine ''beta'' ''alpha'' []
        demo_clock))) ''alpha'') = Some 2
 \<and> dict_get (registered_services (snd (send_message demo_engine ''beta'' ''alpha'' []
        demo_clock))) ''beta'' = dict_get (registered_services demo_engine) ''beta''
 \<and> delivery_status (fst (send_message demo_engine ''beta'' ''gamma'' [] demo_clock))
     = ''error''
 \<and> error (fst (send_message demo_engine ''beta'' ''gamma'' [] demo_clock))
     = Some ''Service gamma not registered''
 \<and> registered_services (snd (send_message demo_engine ''beta'' ''gamma'' [] demo_clock))
     = registered_services demo_engine"
proof -
  have reg: "''alpha'' \<in> set (dict_keys (registered_services demo_engine))"
    and unreg: "''gamma'' \<notin> set (dict_keys (registered_services demo_engine))"
    and cnt: "dict_get (registered_services demo_engine) ''alpha''
        = Some \<lparr>service_type = ''database'', endpoint = '''', config = [],
                status = ''active'', registered_at = 0, message_count = 1\<rparr>"
    by (simp_all add: demo_engine_eval dict_keys_def)
  show ?thesis
    using send_message_delivery[of "''alpha''" demo_engine "''beta''" "[]" demo_clock "''beta''"]
      send_message_delivery[of "''gamma''" demo_engine "''beta''" "[]" demo_clock "''beta''"]
      reg unreg cnt
    by auto
qed

section \<open>Registration\<close>

text \<open>
  C4. For every engine in which \<open>name\<close> is already a key of the registry, registering
  \<open>name\<close> again leaves the number of registered services and the list of keys as they
  were (no second entry for \<open>name\<close>), and the record of \<open>name\<close> afterwards has the new
  type and endpoint, the new config (an absent or empty one giving the empty dictionary),
  status \<open>active\<close> and \<open>message_count\<close> 0; every other name keeps its record.
  \<open>register_service\<close> has no failing branch: it returns the engine.
\<close>

theorem register_service_overwrite:
  assumes "name \<in> set (dict_keys (registered_services e))"
  shows "length (registered_services (register_service e name stype ep cfg clk))
           = length (registered_services e)
       \<and> dict_keys (registered_services (register_service e name stype ep cfg clk))
           = dict_keys (registered_services e)
       \<and> dict_get (registered_services (register_service e name stype ep cfg clk)) name
           = Some \<lparr>service_type = stype, endpoint = ep, config = config_or_empty cfg,
                   status = ''active'', registered_at = clk 0, message_count = 0\<rparr>
       \<and> (n \<noteq> name \<longrightarrow>
            dict_get (registered_services (register_service e name stype ep cfg clk)) n
              = dict_get (registered_services e) n)"
proof -
  let ?d = "registered_services e"
  let ?d' = "registered_services (register_service e name stype ep cfg clk)"
  have keys: "dict_keys ?d' = dict_keys ?d"
    using assms by (simp add: register_service_def dict_keys_dict_set)
  have "length (dict_keys ?d') = length (dict_keys ?d)"
    using keys by simp
  then have len: "length ?d' = length ?d"
    by (simp only: length_dict_keys)
  show ?thesis
    using keys len by (simp add: register_service_def dict_get_dict_set)
qed

theorem register_service_overwrite_witness:
  "''alpha'' \<in> set (dict_keys (registered_services demo_engine))
 \<and> map_option message_count (dict_get (registered_services demo_engine) ''alpha'') = Some 1
 \<and> length (registered_services
      (register_service demo_engine ''alpha'' ''cache'' ''remote''
         (Some [(''ttl'', PInt 5)]) demo_clock)) = 2
 \<and> dict_get (registered_services
      (register_service demo_engine ''alpha'' ''cache'' ''remote''
         (Some [(''ttl'', PInt 5)]) demo_clock)) ''alpha''
     = Some \<lparr>service_type = ''cache'', endpoint = ''remote'', config = [(''ttl'', PInt 5)],
             status = ''active'', registered_at = 0, message_count = 0\<rparr>
 \<and> dict_get (registered_services
      (register_service demo_engine ''alpha'' ''cache'' ''remote''
         (Some [(''ttl'', PInt 5)]) demo_clock)) ''beta''
     = dict_get (registered_services demo_engine) ''beta''"
proof -
  have reg: "''alpha'' \<in> set (dict_keys (registered_services demo_engine))"
    and cnt: "map_option message_count (dict_get (registered_services demo_engine) ''alpha'')
        = Some 1"
    and len: "length (registered_services demo_engine) = 2"
    by (simp_all add: demo_engine_eval dict_keys_def)
  show ?thesis
    using register_service_overwrite[OF reg, of "''cache''" "''remote''"
        "Some [(''ttl'', PInt 5)]" demo_clock "''beta''"] reg cnt len
    by (simp add: config_or_empty_def demo_clock_def)
qed

section \<open>Broadcast\<close>

lemma demo_engine3_services:
  "registered_services demo_engine3 =
     [(''alpha'', \<lparr>service_type = ''database'', endpoint = '''', config = [],
                   status = ''active'', registered_at = 0, message_count = 1\<rparr>),
      (''beta'', \<lparr>service_type = ''api'', endpoint = ''local'', config = [],
                  status = ''active'', registered_at = 0, message_count = 0\<rparr>),
      (''gamma'', \<lparr>service_type = ''queue'', endpoint = '''', config = [],
                   status = ''active'', registered_at = 0, message_count = 0\<rparr>)]"
  by (simp add: demo_engine3_def demo_engine_eval register_service_def config_or_empty_def
        demo_clock_def)

lemma length_filter_other:
  "distinct xs \<Longrightarrow> x \<in> set xs \<Longrightarrow> length (filter (\<lambda>n. n \<noteq> x) xs) = length xs - 1"
proof (induction xs)
  case Nil
  then show ?case by simp
next
  case (Cons a xs)
  show ?case
  proof (cases "a = x")
    case True
    with Cons.prems have "x \<notin> set xs" by simp
    then have "filter (\<lambda>n. n \<noteq> x) xs = xs"
      by (auto simp: filter_id_conv)
    with True show ?thesis by simp
  next
    case False
    with Cons have "length (filter (\<lambda>n. n \<noteq> x) xs) = length xs - 1" and "xs \<noteq> []"
      by auto
    with False show ?thesis by (cases xs) auto
  qed
qed

text \<open>
  What the loop does to the two logs, for any list of names: it appends the messages it
  returns, each of them resolved.
\<close>

lemma broadcast_loop_logs:
  "\<exists>ms. fst (broadcast_loop names e src pl clk results) = results @ ms
      \<and> message_queue (snd (broadcast_loop names e src pl clk results)) = message_queue e @ ms
      \<and> processed_messages (snd (broadcast_loop names e src pl clk results))
          = processed_messages e @ ms
      \<and> (\<forall>m \<in> set ms. delivery_status m = ''delivered'' \<or> delivery_status m = ''error'')"
proof (induction names arbitrary: e clk results)
  case Nil
  show ?case by simp
next
  case (Cons name names)
  show ?case
  proof (cases "name = src")
    case True
    then show ?thesis using Cons.IH[of e clk results] by simp
  next
    case False
    obtain m e1 where se: "send_message e src name pl clk = (m, e1)"
      by (cases "send_message e src name pl clk")
    have q: "message_queue e1 = message_queue e @ [m]"
      and p: "processed_messages e1 = processed_messages e @ [m]"
      using send_message_logs[of e src name pl clk] se by simp_all
    have st: "delivery_status m = ''delivered'' \<or> delivery_status m = ''error''"
      using send_message_resolved[of e src name pl clk] se by simp
    obtain ms where ms:
      "fst (broadcast_loop names e1 src pl (tick clk) ((results @ [m]))) = (results @ [m]) @ ms"
      "message_queue (snd (broadcast_loop names e1 src pl (tick clk) (results @ [m])))
         = message_queue e1 @ ms"
      "processed_messages (snd (broadcast_loop names e1 src pl (tick clk) (results @ [m])))
         = processed_messages e1 @ ms"
      "\<forall>m \<in> set ms. delivery_status m = ''delivered'' \<or> delivery_status m = ''error''"
      using Cons.IH[of e1 "tick clk" "results @ [m]"] by blast
    have "fst (broadcast_loop (name # names) e src pl clk results) = results @ (m # ms)"
      using False se ms(1) by simp
    moreover have "message_queue (snd (broadcast_loop (name # names) e src pl clk results))
        = message_queue e @ (m # ms)"
      using False se ms(2) q by simp
    moreover have "processed_messages (snd (broadcast_loop (name # names) e src pl clk results))
        = processed_messages e @ (m # ms)"
      using False se ms(3) p by simp
    moreover have "\<forall>x \<in> set (m # ms).
        delivery_status x = ''delivered'' \<or> delivery_status x = ''error''"
      using st ms(4) by simp
    ultimately show ?thesis by blast
  qed
qed

lemma broadcast_logs:
  "message_queue (snd (broadcast e src pl clk)) = message_queue e @ fst (broadcast e src pl clk)
 \<and> processed_messages (snd (broadcast e src pl clk))
     = processed_messages e @ fst (broadcast e src pl clk)
 \<and> (\<forall>m \<in> set (fst (broadcast e src pl clk)).
       delivery_status m = ''delivered'' \<or> delivery_status m = ''error'')"
  using broadcast_loop_logs[of "dict_keys (registered_services e)" e src pl clk "[]"]
  by (auto simp: broadcast_def)

text \<open>
  What the loop does to the registry when it runs over distinct registered names: one
  delivered message per name other than the source, in order, and one more message counted
  on each of those names.
\<close>

lemma broadcast_loop_spec:
  assumes "distinct names" and "set names \<subseteq> set (dict_keys (registered_services e))"
  shows "\<exists>ms e'. broadcast_loop names e src pl clk results = (results @ ms, e')
     \<and> map target ms = filter (\<lambda>n. n \<noteq> src) names
     \<and> (\<forall>m \<in> set ms. delivery_status m = ''delivered'' \<and> source m = src \<and> payload m = pl)
     \<and> dict_keys (registered_services e') = dict_keys (registered_services e)
     \<and> (\<forall>n. dict_get (registered_services e') n =
           (if n \<in> set names \<and> n \<noteq> src
            then map_option (\<lambda>s. s\<lparr>message_count := message_count s + 1\<rparr>)
                   (dict_get (registered_services e) n)
            else dict_get (registered_services e) n))"
  using assms
proof (induction names arbitrary: e clk results)
  case Nil
  show ?case by simp
next
  case (Cons name names)
  have dn: "distinct names" and nn: "name \<notin> set names"
    and sub: "set names \<subseteq> set (dict_keys (registered_services e))"
    and reg: "name \<in> set (dict_keys (registered_services e))"
    using Cons.prems by auto
  show ?case
  proof (cases "name = src")
    case True
    obtain ms e' where r: "broadcast_loop names e src pl clk results = (results @ ms, e')"
      and t: "map target ms = filter (\<lambda>n. n \<noteq> src) names"
      and d: "\<forall>m \<in> set ms. delivery_status m = ''delivered'' \<and> source m = src \<and> payload m = pl"
      and k: "dict_keys (registered_services e') = dict_keys (registered_services e)"
      and g: "\<forall>n. dict_get (registered_services e') n =
           (if n \<in> set names \<and> n \<noteq> src
            then map_option (\<lambda>s. s\<lparr>message_count := message_count s + 1\<rparr>)
                   (dict_get (registered_services e) n)
            else dict_get (registered_services e) n)"
      using Cons.IH[OF dn sub, of clk results] by blast
    have "broadcast_loop (name # names) e src pl clk results = (results @ ms, e')"
      using True r by simp
    moreover have "map target ms = filter (\<lambda>n. n \<noteq> src) (name # names)"
      using True t by simp
    moreover have "\<forall>n. dict_get (registered_services e') n =
           (if n \<in> set (name # names) \<and> n \<noteq> src
            then map_option (\<lambda>s. s\<lparr>message_count := message_count s + 1\<rparr>)
                   (dict_get (registered_services e) n)
            else dict_get (registered_services e) n)"
      using True g by auto
    ultimately show ?thesis using d k by blast
  next
    case False
    obtain s where s: "dict_get (registered_services e) name = Some s"
      using reg dict_get_None_iff[of "registered_services e" name] by auto
    define m where "m = \<lparr>source = src, target = name, payload = pl, timestamp = clk 0,
       delivery_status = ''delivered'', error = None\<rparr>"
    define e1 where "e1 = snd (send_message e src name pl clk)"
    have se: "send_message e src name pl clk = (m, e1)"
      unfolding e1_def m_def by (simp add: send_message_registered[OF s])
    have k1: "dict_keys (registered_services e1) = dict_keys (registered_services e)"
      unfolding e1_def using reg by (simp add: send_message_registered[OF s] dict_keys_dict_set)
    have g1: "\<And>n. dict_get (registered_services e1) n =
        (if n = name then Some (s\<lparr>message_count := message_count s + 1\<rparr>)
         else dict_get (registered_services e) n)"
      unfolding e1_def by (simp add: send_message_registered[OF s] dict_get_dict_set)
    have sub1: "set names \<subseteq> set (dict_keys (registered_services e1))"
      using sub k1 by simp
    obtain ms e' where r: "broadcast_loop names e1 src pl (tick clk) (results @ [m])
          = ((results @ [m]) @ ms, e')"
      and t: "map target ms = filter (\<lambda>n. n \<noteq> src) names"
      and d: "\<forall>m \<in> set ms. delivery_status m = ''delivered'' \<and> source m = src \<and> payload m = pl"
      and k: "dict_keys (registered_services e') = dict_keys (registered_services e1)"
      and g: "\<forall>n. dict_get (registered_services e') n =
           (if n \<in> set names \<and> n \<noteq> src
            then map_option (\<lambda>s. s\<lparr>message_count := message_count s + 1\<rparr>)
                   (dict_get (registered_services e1) n)
            else dict_get (registered_services e1) n)"
      using Cons.IH[OF dn sub1, of "tick clk" "results @ [m]"] by blast
    have "broadcast_loop (name # names) e src pl clk results = (results @ (m # ms), e')"
      using False se r by simp
    moreover have "map target (m # ms) = filter (\<lambda>n. n \<noteq> src) (name # names)"
      using False t by (simp add: m_def)
    moreover have "\<forall>x \<in> set (m # ms).
        delivery_status x = ''delivered'' \<and> source x = src \<and> payload x = pl"
      using d by (simp add: m_def)
    moreover have "dict_keys (registered_services e') = dict_keys (registered_services e)"
      using k k1 by simp
    moreover have "\<forall>n. dict_get (registered_services e') n =
           (if n \<in> set (name # names) \<and> n \<noteq> src
            then map_option (\<lambda>s. s\<lparr>message_count := message_count s + 1\<rparr>)
                   (dict_get (registered_services e) n)
            else dict_get (registered_services e) n)"
    proof
      fix n
      show "dict_get (registered_services e') n =
           (if n \<in> set (name # names) \<and> n \<noteq> src
            then map_option (\<lambda>s. s\<lparr>message_count := message_count s + 1\<rparr>)
                   (dict_get (registered_services e) n)
            else dict_get (registered_services e) n)"
      proof (cases "n = name")
        case True
        then show ?thesis using g g1 nn False s by simp
      next
        case neq: False
        then show ?thesis using g g1 by simp
      qed
    qed
    ultimately show ?thesis by blast
  qed
qed

text \<open>
  C5. For every engine whose registry (a dictionary, so its keys are distinct; they are in
  every reachable state, see \<open>reachable_distinct_keys\<close>) has \<open>N\<close>
  services, the source among them, \<open>broadcast\<close> returns \<open>N - 1\<close> messages; their targets
  are the registered names other than the source, in registry order; each has status
  \<open>delivered\<close> (and carries the source and the payload); afterwards every registered name
  other than the source has its record with \<open>message_count\<close> one higher, the source's
  record is as before, and the keys are the same.
\<close>

theorem broadcast_delivers_to_others:
  assumes "distinct (dict_keys (registered_services e))"
      and "src \<in> set (dict_keys (registered_services e))"
  shows "length (fst (broadcast e src pl clk)) = length (registered_services e) - 1
     \<and> map target (fst (broadcast e src pl clk))
         = filter (\<lambda>n. n \<noteq> src) (dict_keys (registered_services e))
     \<and> (\<forall>m \<in> set (fst (broadcast e src pl clk)).
          delivery_status m = ''delivered'' \<and> source m = src \<and> payload m = pl)
     \<and> dict_keys (registered_services (snd (broadcast e src pl clk)))
         = dict_keys (registered_services e)
     \<and> (\<forall>n \<in> set (dict_keys (registered_services e)). n \<noteq> src \<longrightarrow>
          (\<exists>s. dict_get (registered_services e) n = Some s
              \<and> dict_get (registered_services (snd (broadcast e src pl clk))) n
                  = Some (s\<lparr>message_count := message_count s + 1\<rparr>)))
     \<and> dict_get (registered_services (snd (broadcast e src pl clk))) src
         = dict_get (registered_services e) src"
proof -
  let ?keys = "dict_keys (registered_services e)"
  obtain ms e' where r: "broadcast e src pl clk = (ms, e')"
      and t: "map target ms = filter (\<lambda>n. n \<noteq> src) ?keys"
      and d: "\<forall>m \<in> set ms. delivery_status m = ''delivered'' \<and> source m = src \<and> payload m = pl"
      and k: "dict_keys (registered_services e') = ?keys"
      and g: "\<forall>n. dict_get (registered_services e') n =
           (if n \<in> set ?keys \<and> n \<noteq> src
            then map_option (\<lambda>s. s\<lparr>message_count := message_count s + 1\<rparr>)
                   (dict_get (registered_services e) n)
            else dict_get (registered_services e) n)"
    using broadcast_loop_spec[OF assms(1) subset_refl, of src pl clk "[]"]
    by (auto simp: broadcast_def)
  have "length (map target ms) = length ?keys - 1"
    unfolding t using length_filter_other[OF assms] .
  then have len: "length ms = length (registered_services e) - 1"
    by (simp add: length_dict_keys)
  have others: "\<forall>n \<in> set ?keys. n \<noteq> src \<longrightarrow>
          (\<exists>s. dict_get (registered_services e) n = Some s
              \<and> dict_get (registered_services e') n
                  = Some (s\<lparr>message_count := message_count s + 1\<rparr>))"
  proof (intro ballI impI)
    fix n assume n: "n \<in> set ?keys" "n \<noteq> src"
    then obtain s where "dict_get (registered_services e) n = Some s"
      using dict_get_None_iff[of "registered_services e" n] by auto
    then show "\<exists>s. dict_get (registered_services e) n = Some s
              \<and> dict_get (registered_services e') n
                  = Some (s\<lparr>message_count := message_count s + 1\<rparr>)"
      using g n by simp
  qed
  have "dict_get (registered_services e') src = dict_get (registered_services e) src"
    using g by simp
  then show ?thesis
    using r t d k len others by simp
qed

theorem broadcast_delivers_to_others_witness:
  "distinct (dict_keys (registered_services demo_engine3))
 \<and> ''alpha'' \<in> set (dict_keys (registered_services demo_engine3))
 \<and> length (registered_services demo_engine3) = 3
 \<and> length (fst (broadcast demo_engine3 ''alpha'' [] demo_clock)) = 2
 \<and> map target (fst (broadcast demo_engine3 ''alpha'' [] demo_clock)) = [''beta'', ''gamma'']
 \<and> map_option message_count
      (dict_get (registered_services (snd (broadcast demo_engine3 ''alpha'' [] demo_clock)))
         ''gamma'') = Some 1
 \<and> map_option message_count
      (dict_get (registered_services (snd (broadcast demo_engine3 ''alpha'' [] demo_clock)))
         ''alpha'') = Some 1"
proof -
  have dist: "distinct (dict_keys (registered_services demo_engine3))"
    and reg: "''alpha'' \<in> set (dict_keys (registered_services demo_engine3))"
    by (simp_all add: demo_engine3_services dict_keys_def)
  have len: "length (registered_services demo_engine3) = 3"
    and keys: "dict_keys (registered_services demo_engine3) = [''alpha'', ''beta'', ''gamma'']"
    and g: "map_option message_count (dict_get (registered_services demo_engine3) ''gamma'')
        = Some 0"
    and a: "map_option message_count (dict_get (registered_services demo_engine3) ''alpha'')
        = Some 1"
    by (simp_all add: demo_engine3_services dict_keys_def)
  show ?thesis
    using broadcast_delivers_to_others[OF dist reg, of "[]" demo_clock] dist reg len keys g a
    by auto
qed

section \<open>The two message logs\<close>

lemma reachable_logs_ok: "reachable e \<Longrightarrow> logs_ok e"
proof (induction rule: reachable.induct)
  case (reach_init clk)
  show ?case by (simp add: logs_ok_def engine_init_def)
next
  case (reach_register e name stype ep cfg clk)
  then show ?case by (simp add: logs_ok_def register_service_def)
next
  case (reach_send e src tgt pl clk)
  then show ?case
    using send_message_logs[of e src tgt pl clk] send_message_resolved[of e src tgt pl clk]
    by (auto simp: logs_ok_def)
next
  case (reach_broadcast e src pl clk)
  then show ?case
    using broadcast_logs[of e src pl clk]
    by (auto simp: logs_ok_def)
next
  case (reach_repair e h clk)
  then show ?case by (simp add: logs_ok_def)
qed

lemma pending_count_zero:
  assumes "\<forall>m \<in> set (message_queue e).
             delivery_status m = ''delivered'' \<or> delivery_status m = ''error''"
  shows "pending_messages (get_integration_report e clk) = 0"
proof -
  have "filter (\<lambda>m. delivery_status m = ''pending'') (message_queue e) = []"
    using assms by (auto simp: filter_empty_conv)
  then show ?thesis by (simp add: get_integration_report_def)
qed

text \<open>
  C6. In every reachable engine state, the message returned by \<open>send_message\<close> has status
  \<open>delivered\<close> or \<open>error\<close> and not \<open>pending\<close>; so has every message in the message queue
  and in the processed-message log, both before the call and when it has returned; and the
  \<open>pending_messages\<close> count of \<open>get_integration_report\<close> is 0, before and after.
\<close>

theorem send_message_never_pending:
  assumes "reachable e"
  shows "(delivery_status (fst (send_message e src tgt pl clk)) = ''delivered''
          \<or> delivery_status (fst (send_message e src tgt pl clk)) = ''error'')
     \<and> delivery_status (fst (send_message e src tgt pl clk)) \<noteq> ''pending''
     \<and> (\<forall>m \<in> set (message_queue (snd (send_message e src tgt pl clk)))
               \<union> set (processed_messages (snd (send_message e src tgt pl clk))).
          (delivery_status m = ''delivered'' \<or> delivery_status m = ''error'')
          \<and> delivery_status m \<noteq> ''pending'')
     \<and> (\<forall>m \<in> set (message_queue e) \<union> set (processed_messages e).
          (delivery_status m = ''delivered'' \<or> delivery_status m = ''error'')
          \<and> delivery_status m \<noteq> ''pending'')
     \<and> pending_messages (get_integration_report e clk') = 0
     \<and> pending_messages
          (get_integration_report (snd (send_message e src tgt pl clk)) clk') = 0"
proof -
  let ?e' = "snd (send_message e src tgt pl clk)"
  have ok: "logs_ok e"
    using assms by (rule reachable_logs_ok)
  have ok': "logs_ok ?e'"
    using reach_send[OF assms] by (rule reachable_logs_ok)
  have res: "delivery_status (fst (send_message e src tgt pl clk)) = ''delivered''
          \<or> delivery_status (fst (send_message e src tgt pl clk)) = ''error''"
    by (rule send_message_resolved)
  then have np: "delivery_status (fst (send_message e src tgt pl clk)) \<noteq> ''pending''"
    by auto
  have logs: "\<forall>m \<in> set (message_queue e) \<union> set (processed_messages e).
          (delivery_status m = ''delivered'' \<or> delivery_status m = ''error'')
          \<and> delivery_status m \<noteq> ''pending''"
  proof
    fix m assume "m \<in> set (message_queue e) \<union> set (processed_messages e)"
    then have "delivery_status m = ''delivered'' \<or> delivery_status m = ''error''"
      using ok by (auto simp: logs_ok_def)
    then show "(delivery_status m = ''delivered'' \<or> delivery_status m = ''error'')
          \<and> delivery_status m \<noteq> ''pending''"
      by auto
  qed
  have logs': "\<forall>m \<in> set (message_queue ?e') \<union> set (processed_messages ?e').
          (delivery_status m = ''delivered'' \<or> delivery_status m = ''error'')
          \<and> delivery_status m \<noteq> ''pending''"
  proof
    fix m assume "m \<in> set (message_queue ?e') \<union> set (processed_messages ?e')"
    then have "delivery_status m = ''delivered'' \<or> delivery_status m = ''error''"
      using ok' by (auto simp: logs_ok_def)
    then show "(delivery_status m = ''delivered'' \<or> delivery_status m = ''error'')
          \<and> delivery_status m \<noteq> ''pending''"
      by auto
  qed
  have p: "pending_messages (get_integration_report e clk') = 0"
    using ok by (intro pending_count_zero) (simp add: logs_ok_def)
  have p': "pending_messages (get_integration_report ?e' clk') = 0"
    using ok' by (intro pending_count_zero) (simp add: logs_ok_def)
  show ?thesis
    using res np logs logs' p p' by blast
qed

theorem send_message_never_pending_witness:
  "reachable demo_engine
 \<and> delivery_status (fst (send_message demo_engine ''beta'' ''gamma'' [] demo_clock))
     \<noteq> ''pending''
 \<and> pending_messages (get_integration_report demo_engine demo_clock) = 0
 \<and> pending_messages
     (get_integration_report (snd (send_message demo_engine ''beta'' ''gamma'' [] demo_clock))
        demo_clock) = 0"
  using send_message_never_pending[OF reachable_demo_engine,
      of "''beta''" "''gamma''" "[]" demo_clock demo_clock]
    reachable_demo_engine
  by blast

text \<open>
  C10. \<open>send_message\<close> appends the message it returns to the message queue and to the
  processed-message log; \<open>register_service\<close> and a repair sweep leave both as they are, and
  \<open>broadcast\<close> appends to both exactly the messages it returns (those of its
  \<open>send_message\<close> calls); both logs start empty. Hence in every reachable engine state
  the two logs are the same sequence of messages, and have the same length.
\<close>

theorem logs_stay_equal:
  assumes "reachable e"
  shows "message_queue e = processed_messages e
     \<and> length (message_queue e) = length (processed_messages e)
     \<and> message_queue (snd (send_message e src tgt pl clk))
         = message_queue e @ [fst (send_message e src tgt pl clk)]
     \<and> processed_messages (snd (send_message e src tgt pl clk))
         = processed_messages e @ [fst (send_message e src tgt pl clk)]
     \<and> message_queue (register_service e name stype ep cfg clk) = message_queue e
     \<and> processed_messages (register_service e name stype ep cfg clk) = processed_messages e
     \<and> message_queue (snd (broadcast e src pl clk))
         = message_queue e @ fst (broadcast e src pl clk)
     \<and> processed_messages (snd (broadcast e src pl clk))
         = processed_messages e @ fst (broadcast e src pl clk)
     \<and> message_queue
          (e\<lparr>registered_services := snd (snd (auto_repair h (registered_services e) clk))\<rparr>)
         = message_queue e
     \<and> processed_messages
          (e\<lparr>registered_services := snd (snd (auto_repair h (registered_services e) clk))\<rparr>)
         = processed_messages e
     \<and> message_queue (engine_init clk) = []
     \<and> processed_messages (engine_init clk) = []"
proof -
  have eq: "message_queue e = processed_messages e"
    using reachable_logs_ok[OF assms] by (simp add: logs_ok_def)
  have reg: "message_queue (register_service e name stype ep cfg clk) = message_queue e"
    "processed_messages (register_service e name stype ep cfg clk) = processed_messages e"
    by (simp_all add: register_service_def)
  have ini: "message_queue (engine_init clk) = []" "processed_messages (engine_init clk) = []"
    by (simp_all add: engine_init_def)
  show ?thesis
    using eq reg ini send_message_logs[of e src tgt pl clk] broadcast_logs[of e src pl clk]
    by simp
qed

theorem logs_stay_equal_witness:
  "reachable demo_engine
 \<and> message_queue demo_engine = processed_messages demo_engine
 \<and> length (message_queue demo_engine) = 1
 \<and> length (processed_messages demo_engine) = 1
 \<and> length (message_queue (snd (send_message demo_engine ''beta'' ''gamma'' [] demo_clock))) = 2
 \<and> length (processed_messages
      (snd (send_message demo_engine ''beta'' ''gamma'' [] demo_clock))) = 2"
proof -
  have len: "length (message_queue demo_engine) = 1"
    by (simp add: demo_engine_eval)
  show ?thesis
    using logs_stay_equal[OF reachable_demo_engine,
        of "''beta''" "''gamma''" "[]" demo_clock "''alpha''" "''x''" "''y''" None]
      reachable_demo_engine len
    by simp
qed

section \<open>Health checks\<close>

lemma check_loop_eq:
  "check_loop svcs iss =
     iss @ map (\<lambda>p. \<lparr>issue_service = fst p, issue_kind = ''inactive'',
                       severity = ''warning''\<rparr>)
             (filter (\<lambda>p. status (snd p) \<noteq> ''active'') svcs)"
  by (induction svcs iss rule: check_loop.induct) simp_all

lemma filter_inactive_empty_iff:
  "filter (\<lambda>p. status (snd p) \<noteq> ''active'') svcs = []
     \<longleftrightarrow> (\<forall>p \<in> set svcs. status (snd p) = ''active'')"
  by (auto simp: filter_empty_conv)

lemma check_health_all_active:
  assumes "\<forall>p \<in> set svcs. status (snd p) = ''active''"
  shows "check_health h svcs clk =
     (\<lparr>report_status = ''healthy'', report_issues = [],
       services_checked = length svcs, report_timestamp = clk 0\<rparr>,
      h\<lparr>health_status := ''healthy''\<rparr>, svcs)"
proof -
  have "check_loop svcs [] = []"
    using assms by (simp add: check_loop_eq filter_inactive_empty_iff)
  then show ?thesis by (simp add: check_health_def Let_def)
qed

lemma check_health_some_inactive:
  assumes "\<exists>p \<in> set svcs. status (snd p) \<noteq> ''active''"
  shows "check_health h svcs clk =
     (\<lparr>report_status = ''degraded'', report_issues = check_loop svcs [],
       services_checked = length svcs, report_timestamp = clk 0\<rparr>,
      h\<lparr>health_status := ''degraded'', fault_log := fault_log h @ check_loop svcs []\<rparr>,
      svcs)"
proof -
  have "filter (\<lambda>p. status (snd p) \<noteq> ''active'') svcs \<noteq> []"
    using assms by (simp add: filter_inactive_empty_iff)
  then have "check_loop svcs [] \<noteq> []"
    by (simp add: check_loop_eq)
  then show ?thesis by (simp add: check_health_def Let_def)
qed

lemma demo_degraded_monitor_eval:
  "demo_degraded_monitor =
     \<lparr>check_interval = 5, health_status = ''degraded'',
      fault_log =
        [\<lparr>issue_service = ''beta'', issue_kind = ''inactive'', severity = ''warning''\<rparr>,
         \<lparr>issue_service = ''gamma'', issue_kind = ''inactive'', severity = ''warning''\<rparr>],
      repairs = [], healing_start_time = 0\<rparr>"
  by (simp add: demo_degraded_monitor_def demo_monitor_def healing_init_def check_health_def
        demo_registry_def demo_clock_def Let_def)

text \<open>
  C3. For every registry passed to \<open>check_health\<close>: when every record's status is
  \<open>active\<close>, the report has status \<open>healthy\<close> and no issue (and the monitor is \<open>healthy\<close>,
  its fault log as before); when some record's status is not \<open>active\<close>, the report has
  status \<open>degraded\<close>, its issues are, in registry order, one issue of kind \<open>inactive\<close> and
  severity \<open>warning\<close> for each record that is not active, and the monitor is \<open>degraded\<close>
  with exactly these issues appended to its fault log.
\<close>

theorem check_health_report:
  "((\<forall>p \<in> set svcs. status (snd p) = ''active'') \<longrightarrow>
       report_status (fst (check_health h svcs clk)) = ''healthy''
     \<and> report_issues (fst (check_health h svcs clk)) = []
     \<and> health_status (fst (snd (check_health h svcs clk))) = ''healthy''
     \<and> fault_log (fst (snd (check_health h svcs clk))) = fault_log h)
 \<and> ((\<exists>p \<in> set svcs. status (snd p) \<noteq> ''active'') \<longrightarrow>
       report_status (fst (check_health h svcs clk)) = ''degraded''
     \<and> report_issues (fst (check_health h svcs clk))
         = map (\<lambda>p. \<lparr>issue_service = fst p, issue_kind = ''inactive'',
                        severity = ''warning''\<rparr>)
             (filter (\<lambda>p. status (snd p) \<noteq> ''active'') svcs)
     \<and> length (report_issues (fst (check_health h svcs clk)))
         = length (filter (\<lambda>p. status (snd p) \<noteq> ''active'') svcs)
     \<and> health_status (fst (snd (check_health h svcs clk))) = ''degraded''
     \<and> fault_log (fst (snd (check_health h svcs clk)))
         = fault_log h @ report_issues (fst (check_health h svcs clk)))"
proof (cases "\<forall>p \<in> set svcs. status (snd p) = ''active''")
  case True
  then show ?thesis
    by (simp add: check_health_all_active)
next
  case False
  then have ex: "\<exists>p \<in> set svcs. status (snd p) \<noteq> ''active''"
    by simp
  show ?thesis
    using False by (simp add: check_health_some_inactive[OF ex] check_loop_eq)
qed

theorem check_health_report_witness:
  "report_status (fst (check_health demo_monitor (registered_services demo_engine) demo_clock))
     = ''healthy''
 \<and> report_issues (fst (check_health demo_monitor (registered_services demo_engine) demo_clock))
     = []
 \<and> report_status (fst (check_health demo_monitor demo_registry demo_clock)) = ''degraded''
 \<and> report_issues (fst (check_health demo_monitor demo_registry demo_clock))
     = [\<lparr>issue_service = ''beta'', issue_kind = ''inactive'', severity = ''warning''\<rparr>,
        \<lparr>issue_service = ''gamma'', issue_kind = ''inactive'', severity = ''warning''\<rparr>]
 \<and> fault_log (fst (snd (check_health demo_monitor demo_registry demo_clock)))
     = [\<lparr>issue_service = ''beta'', issue_kind = ''inactive'', severity = ''warning''\<rparr>,
        \<lparr>issue_service = ''gamma'', issue_kind = ''inactive'', severity = ''warning''\<rparr>]"
proof -
  have act: "\<forall>p \<in> set (registered_services demo_engine). status (snd p) = ''active''"
    by (simp add: demo_engine_eval)
  have inact: "\<exists>p \<in> set demo_registry. status (snd p) \<noteq> ''active''"
    by (simp add: demo_registry_def)
  have flt: "filter (\<lambda>p. status (snd p) \<noteq> ''active'') demo_registry
      = [(''beta'', \<lparr>service_type = ''api'', endpoint = ''local'', config = [],
                  status = ''inactive'', registered_at = 0, message_count = 4\<rparr>),
         (''gamma'', \<lparr>service_type = ''queue'', endpoint = '''', config = [],
                   status = ''maintenance'', registered_at = 0, message_count = 0\<rparr>)]"
    by (simp add: demo_registry_def)
  have fl: "fault_log demo_monitor = []"
    by (simp add: demo_monitor_def healing_init_def)
  show ?thesis
    using check_health_report[of "registered_services demo_engine" demo_monitor demo_clock]
      check_health_report[of demo_registry demo_monitor demo_clock]
      act inact flt fl
    by simp
qed

text \<open>
  C7. \<open>check_health\<close> writes into no service record: for every registry, the registry
  when the call returns is the registry passed in, so every field of every record is as it
  was; of the monitor only \<open>health_status\<close> and \<open>fault_log\<close> can differ, its repair list,
  check interval and start time being as before.
\<close>

theorem check_health_frame:
  "snd (snd (check_health h svcs clk)) = svcs
 \<and> dict_get (snd (snd (check_health h svcs clk))) name = dict_get svcs name
 \<and> repairs (fst (snd (check_health h svcs clk))) = repairs h
 \<and> check_interval (fst (snd (check_health h svcs clk))) = check_interval h
 \<and> healing_start_time (fst (snd (check_health h svcs clk))) = healing_start_time h
 \<and> fst (snd (check_health h svcs clk))
     = h\<lparr>health_status := health_status (fst (snd (check_health h svcs clk))),
         fault_log := fault_log (fst (snd (check_health h svcs clk)))\<rparr>"
  by (simp add: check_health_def Let_def)

theorem check_health_frame_witness:
  "snd (snd (check_health demo_monitor demo_registry demo_clock)) = demo_registry
 \<and> map_option status (dict_get demo_registry ''beta'') = Some ''inactive''
 \<and> map_option status
      (dict_get (snd (snd (check_health demo_monitor demo_registry demo_clock))) ''beta'')
     = Some ''inactive''
 \<and> repairs (fst (snd (check_health demo_monitor demo_registry demo_clock))) = []"
proof -
  have b: "map_option status (dict_get demo_registry ''beta'') = Some ''inactive''"
    by (simp add: demo_registry_def)
  have r: "repairs demo_monitor = []"
    by (simp add: demo_monitor_def healing_init_def)
  show ?thesis
    using check_health_frame[of demo_monitor demo_registry demo_clock "''beta''"] b r
    by simp
qed

section \<open>Automatic repair\<close>

lemma repair_loop_spec:
  "\<exists>new. repair_loop svcs clk reps =
       (map (\<lambda>p. (fst p, if status (snd p) \<noteq> ''active''
                          then (snd p)\<lparr>status := ''active''\<rparr> else snd p)) svcs,
        reps @ new)
     \<and> map repair_service new = map fst (filter (\<lambda>p. status (snd p) \<noteq> ''active'') svcs)
     \<and> (\<forall>r \<in> set new. action r = ''reactivated'')"
proof (induction svcs arbitrary: clk reps)
  case Nil
  show ?case by simp
next
  case (Cons p svcs)
  obtain name s where p: "p = (name, s)"
    by (cases p)
  show ?case
  proof (cases "status s \<noteq> ''active''")
    case True
    define rep where "rep = \<lparr>repair_service = name, action = ''reactivated'',
                    repair_timestamp = clk 0\<rparr>"
    obtain new where l: "repair_loop svcs (tick clk) (reps @ [rep]) =
       (map (\<lambda>p. (fst p, if status (snd p) \<noteq> ''active''
                          then (snd p)\<lparr>status := ''active''\<rparr> else snd p)) svcs,
        (reps @ [rep]) @ new)"
      and n: "map repair_service new
          = map fst (filter (\<lambda>p. status (snd p) \<noteq> ''active'') svcs)"
      and a: "\<forall>r \<in> set new. action r = ''reactivated''"
      using Cons.IH[of "tick clk" "reps @ [rep]"] by blast
    have "repair_loop (p # svcs) clk reps =
       (map (\<lambda>p. (fst p, if status (snd p) \<noteq> ''active''
                          then (snd p)\<lparr>status := ''active''\<rparr> else snd p)) (p # svcs),
        reps @ (rep # new))"
      using True l by (simp add: p rep_def)
    moreover have "map repair_service (rep # new)
          = map fst (filter (\<lambda>p. status (snd p) \<noteq> ''active'') (p # svcs))"
      using True n by (simp add: p rep_def)
    moreover have "\<forall>r \<in> set (rep # new). action r = ''reactivated''"
      using a by (simp add: rep_def)
    ultimately show ?thesis by blast
  next
    case False
    obtain new where l: "repair_loop svcs clk reps =
       (map (\<lambda>p. (fst p, if status (snd p) \<noteq> ''active''
                          then (snd p)\<lparr>status := ''active''\<rparr> else snd p)) svcs,
        reps @ new)"
      and n: "map repair_service new
          = map fst (filter (\<lambda>p. status (snd p) \<noteq> ''active'') svcs)"
      and a: "\<forall>r \<in> set new. action r = ''reactivated''"
      using Cons.IH[of clk reps] by blast
    have "repair_loop (p # svcs) clk reps =
       (map (\<lambda>p. (fst p, if status (snd p) \<noteq> ''active''
                          then (snd p)\<lparr>status := ''active''\<rparr> else snd p)) (p # svcs),
        reps @ new)"
      using False l by (simp add: p)
    moreover have "map repair_service new
          = map fst (filter (\<lambda>p. status (snd p) \<noteq> ''active'') (p # svcs))"
      using False n by (simp add: p)
    ultimately show ?thesis using a by blast
  qed
qed

lemma swept_all_active:
  "filter (\<lambda>s. status s \<noteq> ''active'')
     (map snd (map (\<lambda>p. (fst p, if status (snd p) \<noteq> ''active''
                          then (snd p)\<lparr>status := ''active''\<rparr> else snd p)) svcs)) = []"
  by (induction svcs) auto

text \<open>
  The whole of \<open>auto_repair\<close>: the registry with every record that is not active switched to
  active, one repair per such record, the repairs appended to the monitor's list, and the
  monitor healthy.
\<close>

lemma auto_repair_spec:
  "\<exists>new. auto_repair h svcs clk =
       (new,
        h\<lparr>repairs := repairs h @ new, health_status := ''healthy''\<rparr>,
        map (\<lambda>p. (fst p, if status (snd p) \<noteq> ''active''
                          then (snd p)\<lparr>status := ''active''\<rparr> else snd p)) svcs)
     \<and> map repair_service new = map fst (filter (\<lambda>p. status (snd p) \<noteq> ''active'') svcs)
     \<and> (\<forall>r \<in> set new. action r = ''reactivated'')"
proof -
  obtain new where l: "repair_loop svcs clk [] =
       (map (\<lambda>p. (fst p, if status (snd p) \<noteq> ''active''
                          then (snd p)\<lparr>status := ''active''\<rparr> else snd p)) svcs,
        new)"
      and n: "map repair_service new
          = map fst (filter (\<lambda>p. status (snd p) \<noteq> ''active'') svcs)"
      and a: "\<forall>r \<in> set new. action r = ''reactivated''"
    using repair_loop_spec[of svcs clk "[]"] by auto
  have "auto_repair h svcs clk =
       (new,
        h\<lparr>repairs := repairs h @ new, health_status := ''healthy''\<rparr>,
        map (\<lambda>p. (fst p, if status (snd p) \<noteq> ''active''
                          then (snd p)\<lparr>status := ''active''\<rparr> else snd p)) svcs)"
    unfolding auto_repair_def l using swept_all_active[of svcs]
    by (simp add: Let_def)
  then show ?thesis using n a by blast
qed

text \<open>
  C9. For every monitor and every registry, whatever the monitor's status before and
  whether or not a check came first, the monitor's status is \<open>healthy\<close> when \<open>auto_repair\<close>
  returns: no record of the swept registry is other than active, so the test guarding the
  assignment succeeds.
\<close>

theorem auto_repair_leaves_healthy:
  "health_status (fst (snd (auto_repair h svcs clk))) = ''healthy''
 \<and> filter (\<lambda>s. status s \<noteq> ''active'') (map snd (snd (snd (auto_repair h svcs clk)))) = []"
proof -
  obtain new where r: "auto_repair h svcs clk =
       (new, h\<lparr>repairs := repairs h @ new, health_status := ''healthy''\<rparr>,
        map (\<lambda>p. (fst p, if status (snd p) \<noteq> ''active''
                         then (snd p)\<lparr>status := ''active''\<rparr> else snd p)) svcs)"
    using auto_repair_spec[of h svcs clk] by blast
  show ?thesis
    unfolding r using swept_all_active[of svcs] by simp
qed

theorem auto_repair_leaves_healthy_witness:
  "health_status demo_degraded_monitor = ''degraded''
 \<and> health_status (fst (snd (auto_repair demo_degraded_monitor demo_registry demo_clock)))
     = ''healthy''
 \<and> health_status (fst (snd (auto_repair demo_monitor [] demo_clock))) = ''healthy''"
  using auto_repair_leaves_healthy[of demo_degraded_monitor demo_registry demo_clock]
    auto_repair_leaves_healthy[of demo_monitor "[]" demo_clock]
  by (simp add: demo_degraded_monitor_eval)

section \<open>Tasks of unknown type\<close>










section \<open>Registry keys\<close>

text \<open>
  The association list of a reachable engine is a dictionary: no name occurs twice. No
  operation removes a key, and only \<open>register_service\<close> can add one.
\<close>

lemma send_message_keys:
  "dict_keys (registered_services (snd (send_message e src tgt pl clk)))
     = dict_keys (registered_services e)"
proof (cases "dict_get (registered_services e) tgt")
  case None
  then show ?thesis by (simp add: send_message_unregistered)
next
  case (Some s)
  then have "tgt \<in> set (dict_keys (registered_services e))"
    using dict_get_None_iff[of "registered_services e" tgt] by simp
  then show ?thesis
    by (simp add: send_message_registered[OF Some] dict_keys_dict_set)
qed

lemma broadcast_loop_keys:
  "dict_keys (registered_services (snd (broadcast_loop names e src pl clk results)))
     = dict_keys (registered_services e)"
proof (induction names arbitrary: e clk results)
  case Nil
  show ?case by simp
next
  case (Cons name names)
  show ?case
  proof (cases "name = src")
    case True
    then show ?thesis using Cons.IH[of e clk results] by simp
  next
    case False
    obtain m e1 where se: "send_message e src name pl clk = (m, e1)"
      by (cases "send_message e src name pl clk")
    have "dict_keys (registered_services e1) = dict_keys (registered_services e)"
      using send_message_keys[of e src name pl clk] se by simp
    then show ?thesis
      using False se Cons.IH[of e1 "tick clk" "results @ [m]"] by simp
  qed
qed

lemma auto_repair_keys: "dict_keys (snd (snd (auto_repair h svcs clk))) = dict_keys svcs"
proof -
  obtain new where "auto_repair h svcs clk =
       (new, h\<lparr>repairs := repairs h @ new, health_status := ''healthy''\<rparr>,
        map (\<lambda>p. (fst p, if status (snd p) \<noteq> ''active''
                         then (snd p)\<lparr>status := ''active''\<rparr> else snd p)) svcs)"
    using auto_repair_spec[of h svcs clk] by blast
  then show ?thesis by (simp add: dict_keys_def comp_def)
qed

lemma reachable_distinct_keys: "reachable e \<Longrightarrow> distinct (dict_keys (registered_services e))"
proof (induction rule: reachable.induct)
  case (reach_init clk)
  show ?case by (simp add: engine_init_def dict_keys_def)
next
  case (reach_register e name stype ep cfg clk)
  then show ?case by (simp add: register_service_def dict_keys_dict_set)
next
  case (reach_send e src tgt pl clk)
  then show ?case by (simp add: send_message_keys)
next
  case (reach_broadcast e src pl clk)
  then show ?case by (simp add: broadcast_def broadcast_loop_keys)
next
  case (reach_repair e h clk)
  then show ?case by (simp add: auto_repair_keys)
qed

section \<open>Automatic repair of shared record objects\<close>

lemma deref_update_other:
  "a \<notin> snd ` set reg \<Longrightarrow> deref (store(a := v)) reg = deref store reg"
  by (induction reg) (auto simp: deref_def)

text \<open>
  The store after the sweep, whatever the sharing: every record object reached from the
  registry that was not active is active, and nothing else is written.
\<close>

lemma repair_loop_refs_store:
  "fst (repair_loop_refs reg store clk reps) =
     (\<lambda>a. if a \<in> snd ` set reg \<and> status (store a) \<noteq> ''active''
          then (store a)\<lparr>status := ''active''\<rparr> else store a)"
proof (induction reg arbitrary: store clk reps)
  case Nil
  show ?case by simp
next
  case (Cons p reg)
  obtain name a where p: "p = (name, a)"
    by (cases p)
  show ?case
  proof (cases "status (store a) \<noteq> ''active''")
    case True
    show ?thesis
      using True
      by (simp add: p Cons.IH fun_eq_iff)
  next
    case False
    show ?thesis
      using False
      by (auto simp: p Cons.IH fun_eq_iff)
  qed
qed

lemma repair_loop_refs_actions:
  "\<exists>new. snd (repair_loop_refs reg store clk reps) = reps @ new
     \<and> (\<forall>r \<in> set new. action r = ''reactivated'')"
proof (induction reg arbitrary: store clk reps)
  case Nil
  show ?case by simp
next
  case (Cons p reg)
  obtain name a where p: "p = (name, a)"
    by (cases p)
  show ?case
  proof (cases "status (store a) \<noteq> ''active''")
    case True
    define rep where "rep = \<lparr>repair_service = name, action = ''reactivated'',
                    repair_timestamp = clk 0\<rparr>"
    obtain new where
      l: "snd (repair_loop_refs reg (store(a := (store a)\<lparr>status := ''active''\<rparr>)) (tick clk)
               (reps @ [rep])) = (reps @ [rep]) @ new"
      and ac: "\<forall>r \<in> set new. action r = ''reactivated''"
      using Cons.IH[of "store(a := (store a)\<lparr>status := ''active''\<rparr>)" "tick clk"
          "reps @ [rep]"] by blast
    have "snd (repair_loop_refs (p # reg) store clk reps) = reps @ (rep # new)"
      using True l by (simp add: p rep_def)
    moreover have "\<forall>r \<in> set (rep # new). action r = ''reactivated''"
      using ac by (simp add: rep_def)
    ultimately show ?thesis by blast
  next
    case False
    then show ?thesis
      using Cons.IH[of store clk reps] by (simp add: p)
  qed
qed

text \<open>
  When no two names share a record object, the sweep over record objects is the sweep
  \<open>repair_loop\<close> over the dictionary of records.
\<close>

lemma repair_loop_refs_unshared:
  assumes "distinct (map snd reg)"
  shows "repair_loop (deref store reg) clk reps =
           (deref (fst (repair_loop_refs reg store clk reps)) reg,
            snd (repair_loop_refs reg store clk reps))"
  using assms
proof (induction reg arbitrary: store clk reps)
  case Nil
  show ?case by (simp add: deref_def)
next
  case (Cons p reg)
  obtain name a where p: "p = (name, a)"
    by (cases p)
  have fresh: "a \<notin> snd ` set reg" and dist: "distinct (map snd reg)"
    using Cons.prems by (auto simp: p)
  show ?case
  proof (cases "status (store a) \<noteq> ''active''")
    case True
    define store1 where "store1 = store(a := (store a)\<lparr>status := ''active''\<rparr>)"
    define rep where "rep = \<lparr>repair_service = name, action = ''reactivated'',
                    repair_timestamp = clk 0\<rparr>"
    have same: "deref store1 reg = deref store reg"
      unfolding store1_def using fresh by (rule deref_update_other)
    have ih: "repair_loop (deref store reg) (tick clk) (reps @ [rep]) =
           (deref (fst (repair_loop_refs reg store1 (tick clk) (reps @ [rep]))) reg,
            snd (repair_loop_refs reg store1 (tick clk) (reps @ [rep])))"
      using Cons.IH[OF dist, of store1 "tick clk" "reps @ [rep]"] same by simp
    have at_a: "fst (repair_loop_refs reg store1 (tick clk) (reps @ [rep])) a
        = (store a)\<lparr>status := ''active''\<rparr>"
      using fresh by (simp add: repair_loop_refs_store store1_def)
    have step: "repair_loop_refs (p # reg) store clk reps
        = repair_loop_refs reg store1 (tick clk) (reps @ [rep])"
      using True by (simp add: p store1_def rep_def)
    have "repair_loop (deref store (p # reg)) clk reps =
        ((name, (store a)\<lparr>status := ''active''\<rparr>)
           # deref (fst (repair_loop_refs reg store1 (tick clk) (reps @ [rep]))) reg,
         snd (repair_loop_refs reg store1 (tick clk) (reps @ [rep])))"
      using True ih by (simp add: p deref_def rep_def)
    then show ?thesis
      unfolding step using at_a by (simp add: p deref_def)
  next
    case False
    have ih: "repair_loop (deref store reg) clk reps =
           (deref (fst (repair_loop_refs reg store clk reps)) reg,
            snd (repair_loop_refs reg store clk reps))"
      using Cons.IH[OF dist, of store clk reps] .
    have at_a: "fst (repair_loop_refs reg store clk reps) a = store a"
      using False by (simp add: repair_loop_refs_store)
    have step: "repair_loop_refs (p # reg) store clk reps = repair_loop_refs reg store clk reps"
      using False by (simp add: p)
    have "repair_loop (deref store (p # reg)) clk reps =
        ((name, store a) # deref (fst (repair_loop_refs reg store clk reps)) reg,
         snd (repair_loop_refs reg store clk reps))"
      using False ih by (simp add: p deref_def)
    then show ?thesis
      unfolding step using at_a by (simp add: p deref_def)
  qed
qed

lemma deref_swept:
  "deref (\<lambda>a. if a \<in> snd ` set reg \<and> status (store a) \<noteq> ''active''
               then (store a)\<lparr>status := ''active''\<rparr> else store a) reg
     = map (\<lambda>p. (fst p, if status (snd p) \<noteq> ''active''
                         then (snd p)\<lparr>status := ''active''\<rparr> else snd p)) (deref store reg)"
  by (simp add: deref_def)

text \<open>
  The whole of \<open>auto_repair_refs\<close>, whatever the sharing: all records are active afterwards
  and the monitor is healthy.
\<close>

lemma auto_repair_refs_spec:
  "\<exists>new. auto_repair_refs h reg store clk =
       (new,
        h\<lparr>repairs := repairs h @ new, health_status := ''healthy''\<rparr>,
        fst (repair_loop_refs reg store clk []))
     \<and> snd (repair_loop_refs reg store clk []) = new
     \<and> (\<forall>r \<in> set new. action r = ''reactivated'')"
proof -
  obtain new where n: "snd (repair_loop_refs reg store clk []) = new"
      and a: "\<forall>r \<in> set new. action r = ''reactivated''"
    using repair_loop_refs_actions[of reg store clk "[]"] by auto
  define store' where "store' = fst (repair_loop_refs reg store clk [])"
  have l: "repair_loop_refs reg store clk [] = (store', new)"
    using n by (simp add: store'_def prod_eq_iff)
  have "deref store' reg
      = map (\<lambda>p. (fst p, if status (snd p) \<noteq> ''active''
                         then (snd p)\<lparr>status := ''active''\<rparr> else snd p)) (deref store reg)"
    unfolding store'_def repair_loop_refs_store by (rule deref_swept)
  then have "filter (\<lambda>s. status s \<noteq> ''active'') (map snd (deref store' reg)) = []"
    using swept_all_active[of "deref store reg"] by simp
  then have "auto_repair_refs h reg store clk =
       (new, h\<lparr>repairs := repairs h @ new, health_status := ''healthy''\<rparr>, store')"
    unfolding auto_repair_refs_def l by (simp add: Let_def)
  then show ?thesis
    using n a by (simp add: store'_def)
qed

lemma auto_repair_refs_unshared:
  assumes "distinct (map snd reg)"
  shows "auto_repair h (deref store reg) clk =
           (fst (auto_repair_refs h reg store clk),
            fst (snd (auto_repair_refs h reg store clk)),
            deref (snd (snd (auto_repair_refs h reg store clk))) reg)"
proof -
  obtain new where r: "auto_repair_refs h reg store clk =
       (new, h\<lparr>repairs := repairs h @ new, health_status := ''healthy''\<rparr>,
        fst (repair_loop_refs reg store clk []))"
      and n: "snd (repair_loop_refs reg store clk []) = new"
    using auto_repair_refs_spec[of h reg store clk] by blast
  have l: "repair_loop (deref store reg) clk [] =
      (deref (fst (repair_loop_refs reg store clk [])) reg, new)"
    using repair_loop_refs_unshared[OF assms, of store clk "[]"] n by simp
  have "deref (fst (repair_loop_refs reg store clk [])) reg
      = map (\<lambda>p. (fst p, if status (snd p) \<noteq> ''active''
                         then (snd p)\<lparr>status := ''active''\<rparr> else snd p)) (deref store reg)"
    unfolding repair_loop_refs_store by (rule deref_swept)
  then have "filter (\<lambda>s. status s \<noteq> ''active'')
      (map snd (deref (fst (repair_loop_refs reg store clk [])) reg)) = []"
    using swept_all_active[of "deref store reg"] by simp
  then have "auto_repair h (deref store reg) clk =
      (new, h\<lparr>repairs := repairs h @ new, health_status := ''healthy''\<rparr>,
       deref (fst (repair_loop_refs reg store clk [])) reg)"
    unfolding auto_repair_def l by (simp add: Let_def)
  then show ?thesis
    by (simp add: r)
qed

lemma demo_deref: "deref demo_store demo_ref_registry = demo_registry"
  by (simp add: deref_def demo_store_def demo_ref_registry_def demo_registry_def)

lemma demo_non_active_names: "non_active_names demo_registry = [''beta'', ''gamma'']"
  by (simp add: non_active_names_def demo_registry_def)

text \<open>
  C2, as it holds of the code. \<open>auto_repair\<close> on any registry of record objects: every
  record that was not active is set to \<open>active\<close> and no other field or record is written,
  so every record is active afterwards; every repair it returns has action
  \<open>reactivated\<close>, and the repairs are appended to the monitor's list; \<open>check_health\<close>
  called next on the same registry reports \<open>healthy\<close> with no issue. When no two names are
  bound to the same record object, it returns exactly one repair for each service that was
  not active, in registry order.
\<close>

theorem auto_repair_refs_reactivates:
  "deref (snd (snd (auto_repair_refs h reg store clk))) reg
     = map (\<lambda>p. (fst p, if status (snd p) \<noteq> ''active''
                         then (snd p)\<lparr>status := ''active''\<rparr> else snd p)) (deref store reg)
 \<and> (\<forall>p \<in> set (deref (snd (snd (auto_repair_refs h reg store clk))) reg).
       status (snd p) = ''active'')
 \<and> (\<forall>r \<in> set (fst (auto_repair_refs h reg store clk)). action r = ''reactivated'')
 \<and> repairs (fst (snd (auto_repair_refs h reg store clk)))
     = repairs h @ fst (auto_repair_refs h reg store clk)
 \<and> report_status
      (fst (check_health (fst (snd (auto_repair_refs h reg store clk)))
              (deref (snd (snd (auto_repair_refs h reg store clk))) reg) clk')) = ''healthy''
 \<and> report_issues
      (fst (check_health (fst (snd (auto_repair_refs h reg store clk)))
              (deref (snd (snd (auto_repair_refs h reg store clk))) reg) clk')) = []
 \<and> (distinct (map snd reg) \<longrightarrow>
       map repair_service (fst (auto_repair_refs h reg store clk))
         = non_active_names (deref store reg)
     \<and> length (fst (auto_repair_refs h reg store clk))
         = length (non_active_names (deref store reg)))"
proof -
  let ?A = "auto_repair_refs h reg store clk"
  let ?swept = "map (\<lambda>p. (fst p, if status (snd p) \<noteq> ''active''
                         then (snd p)\<lparr>status := ''active''\<rparr> else snd p)) (deref store reg)"
  obtain new where r: "?A =
       (new, h\<lparr>repairs := repairs h @ new, health_status := ''healthy''\<rparr>,
        fst (repair_loop_refs reg store clk []))"
      and a: "\<forall>r \<in> set new. action r = ''reactivated''"
    using auto_repair_refs_spec[of h reg store clk] by blast
  have f: "fst ?A = new"
    and m: "fst (snd ?A) = h\<lparr>repairs := repairs h @ new, health_status := ''healthy''\<rparr>"
    and g: "snd (snd ?A) = fst (repair_loop_refs reg store clk [])"
    by (simp_all add: r)
  have c1: "deref (snd (snd ?A)) reg = ?swept"
    unfolding g repair_loop_refs_store by (rule deref_swept)
  have act: "\<forall>p \<in> set ?swept. status (snd p) = ''active''"
  proof
    fix p assume "p \<in> set ?swept"
    then obtain q where "p = (fst q, if status (snd q) \<noteq> ''active''
                         then (snd q)\<lparr>status := ''active''\<rparr> else snd q)"
      by (auto simp: image_iff)
    then show "status (snd p) = ''active''"
      by (cases "status (snd q) = ''active''") simp_all
  qed
  have c2: "\<forall>p \<in> set (deref (snd (snd ?A)) reg). status (snd p) = ''active''"
    unfolding c1 by (rule act)
  have c3: "\<forall>r \<in> set (fst ?A). action r = ''reactivated''"
    unfolding f by (rule a)
  have c4: "repairs (fst (snd ?A)) = repairs h @ fst ?A"
    by (simp add: f m)
  have chk: "check_health (fst (snd ?A)) (deref (snd (snd ?A)) reg) clk' =
     (\<lparr>report_status = ''healthy'', report_issues = [],
       services_checked = length (deref (snd (snd ?A)) reg), report_timestamp = clk' 0\<rparr>,
      (fst (snd ?A))\<lparr>health_status := ''healthy''\<rparr>, deref (snd (snd ?A)) reg)"
    using c2 by (rule check_health_all_active)
  have c5: "report_status
      (fst (check_health (fst (snd ?A)) (deref (snd (snd ?A)) reg) clk')) = ''healthy''"
    and c6: "report_issues
      (fst (check_health (fst (snd ?A)) (deref (snd (snd ?A)) reg) clk')) = []"
    unfolding chk by simp_all
  have c7: "distinct (map snd reg) \<longrightarrow>
       map repair_service (fst ?A) = non_active_names (deref store reg)
     \<and> length (fst ?A) = length (non_active_names (deref store reg))"
  proof
    assume d: "distinct (map snd reg)"
    have same: "fst (auto_repair h (deref store reg) clk) = fst ?A"
      using auto_repair_refs_unshared[OF d, of h store clk] by simp
    obtain new' where "auto_repair h (deref store reg) clk =
       (new', h\<lparr>repairs := repairs h @ new', health_status := ''healthy''\<rparr>, ?swept)"
      and "map repair_service new'
          = map fst (filter (\<lambda>p. status (snd p) \<noteq> ''active'') (deref store reg))"
      using auto_repair_spec[of h "deref store reg" clk] by blast
    then have n: "map repair_service (fst ?A) = non_active_names (deref store reg)"
      using same by (simp add: non_active_names_def)
    have "length (map repair_service (fst ?A)) = length (non_active_names (deref store reg))"
      by (simp only: n)
    then have "length (fst ?A) = length (non_active_names (deref store reg))"
      by (simp only: length_map)
    with n show "map repair_service (fst ?A) = non_active_names (deref store reg)
     \<and> length (fst ?A) = length (non_active_names (deref store reg))"
      by (rule conjI)
  qed
  show ?thesis
    by (intro conjI) (rule c1 c2 c3 c4 c5 c6 c7)+
qed

theorem auto_repair_refs_reactivates_witness:
  "distinct (map snd demo_ref_registry)
 \<and> non_active_names (deref demo_store demo_ref_registry) = [''beta'', ''gamma'']
 \<and> map repair_service
      (fst (auto_repair_refs demo_degraded_monitor demo_ref_registry demo_store demo_clock))
     = [''beta'', ''gamma'']
 \<and> length (fst (auto_repair_refs demo_degraded_monitor demo_ref_registry demo_store demo_clock))
     = 2
 \<and> non_active_names
      (deref (snd (snd (auto_repair_refs demo_degraded_monitor demo_ref_registry demo_store
                          demo_clock))) demo_ref_registry) = []
 \<and> report_status
      (fst (check_health
              (fst (snd (auto_repair_refs demo_degraded_monitor demo_ref_registry demo_store
                           demo_clock)))
              (deref (snd (snd (auto_repair_refs demo_degraded_monitor demo_ref_registry
                                  demo_store demo_clock))) demo_ref_registry)
              demo_clock)) = ''healthy''
 \<and> report_issues
      (fst (check_health
              (fst (snd (auto_repair_refs demo_degraded_monitor demo_ref_registry demo_store
                           demo_clock)))
              (deref (snd (snd (auto_repair_refs demo_degraded_monitor demo_ref_registry
                                  demo_store demo_clock))) demo_ref_registry)
              demo_clock)) = []"
proof -
  note t = auto_repair_refs_reactivates[of demo_degraded_monitor demo_ref_registry demo_store
      demo_clock demo_clock]
  note swept = t[THEN conjunct1]
  note after = t[THEN conjunct2, THEN conjunct2, THEN conjunct2, THEN conjunct2]
  have d: "distinct (map snd demo_ref_registry)"
    by (simp add: demo_ref_registry_def)
  have nn: "non_active_names (deref demo_store demo_ref_registry) = [''beta'', ''gamma'']"
    by (simp add: demo_deref demo_non_active_names)
  note unshared = after[THEN conjunct2, THEN conjunct2, THEN mp, OF d]
  have w1: "map repair_service
      (fst (auto_repair_refs demo_degraded_monitor demo_ref_registry demo_store demo_clock))
     = [''beta'', ''gamma'']"
    using unshared[THEN conjunct1] by (simp only: nn)
  have w2: "length
      (fst (auto_repair_refs demo_degraded_monitor demo_ref_registry demo_store demo_clock)) = 2"
    using unshared[THEN conjunct2] by (simp add: nn)
  have w3: "non_active_names
      (deref (snd (snd (auto_repair_refs demo_degraded_monitor demo_ref_registry demo_store
                          demo_clock))) demo_ref_registry) = []"
    unfolding swept by (simp add: demo_deref demo_registry_def non_active_names_def)
  show ?thesis
    by (intro conjI)
      (rule d nn w1 w2 w3 after[THEN conjunct1] after[THEN conjunct2, THEN conjunct1])+
qed

text \<open>
  Two names bound to one record object that is switched off: both services are not
  active, and the sweep returns one repair, for the first name only, the write made for it
  having already reactivated the record when the second name is visited.
\<close>

theorem auto_repair_shared_record_counterexample:
  "non_active_names (deref shared_store shared_registry) = [''a'', ''b'']
 \<and> map repair_service
      (fst (auto_repair_refs demo_degraded_monitor shared_registry shared_store demo_clock))
     = [''a'']
 \<and> length (fst (auto_repair_refs demo_degraded_monitor shared_registry shared_store demo_clock))
     \<noteq> length (non_active_names (deref shared_store shared_registry))"
  by (simp add: auto_repair_refs_def shared_registry_def shared_store_def deref_def
        non_active_names_def Let_def)

end
